theory Spec2Isabelle
  imports Main "HOL-Library.Word"
begin

section \<open>The number parser of number\_parser.h and number\_parser.c\<close>

text \<open>
  The parser is a C struct that is mutated in place by six functions. Each function is
  modelled as a HOL function from the struct (a record) to the updated struct.

  Machine integers are words: \<open>int16_t\<close> is \<open>16 word\<close> read with \<open>sint\<close>,
  \<open>uint8_t\<close> is \<open>8 word\<close>, and the anonymous union of \<open>ival\<close>, \<open>uval\<close> and
  \<open>fval\<close> is one 64-bit cell \<open>bits\<close> that the three members read in three ways.
  The \<open>int\<close> arguments of the C functions (\<open>digit\<close>, \<open>negative\<close>) and the local
  \<open>int n\<close> of \<open>number_parser_end\<close> are HOL integers. \<open>n\<close> is computed from three
  \<open>int16_t\<close> values and stays inside the range of a 32-bit \<open>int\<close>; a theorem that
  depends on the value of a digit assumes the range the header asks for.
\<close>

subsection \<open>The arithmetic of \<open>double\<close>\<close>

text \<open>
  The repository does not define the arithmetic of \<open>double\<close>; the C platform does.
  A \<open>double\<close> is represented by its 64-bit object representation, and the operations
  the source uses are taken as a parameter \<open>fp\<close> of every function that computes with
  doubles:
  \<^item> \<open>d_of_int\<close>: the conversion of an integer value to \<open>double\<close> (the source converts
    \<open>uval\<close>, \<open>base\<close>, \<open>digit\<close> and the literal \<open>1.0\<close>);
  \<^item> \<open>d_add\<close>, \<open>d_mul\<close>, \<open>d_div\<close>: \<open>+\<close>, \<open>*\<close> and \<open>/\<close> on doubles;
  \<^item> \<open>d_neg\<close>: unary minus.
  Every theorem below holds for every such \<open>fp\<close>.
\<close>

type_synonym double = "64 word"

record double_ops =
  d_of_int :: "int \<Rightarrow> double"
  d_add :: "double \<Rightarrow> double \<Rightarrow> double"
  d_mul :: "double \<Rightarrow> double \<Rightarrow> double"
  d_div :: "double \<Rightarrow> double \<Rightarrow> double"
  d_neg :: "double \<Rightarrow> double"

subsection \<open>The struct\<close>

text \<open>
  \<^verbatim>\<open>
  typedef struct {
      int16_t int_len;  int16_t rad_off;  int16_t exp_val;  uint8_t base;
      uint8_t sign:1;  uint8_t exp_sign:1;  uint8_t is_float:1;
      uint8_t has_exp:1;  uint8_t was_int:1;
      union { int64_t ival; uint64_t uval; double fval; };
  } number_parser;
  \<close>
\<close>

record number_parser =
  int_len :: "16 word"
  rad_off :: "16 word"
  exp_val :: "16 word"
  base :: "8 word"
  sign :: bool
  exp_sign :: bool
  is_float :: bool
  has_exp :: bool
  was_int :: bool
  bits :: "64 word"

text \<open>The three members of the union, as readings of the one cell.\<close>

definition uval :: "number_parser \<Rightarrow> 64 word" where
  "uval p = bits p"

definition ival :: "number_parser \<Rightarrow> int" where
  "ival p = sint (bits p)"

definition fval :: "number_parser \<Rightarrow> double" where
  "fval p = bits p"

subsection \<open>The constants of number\_parser.c\<close>

text \<open>
  \<^verbatim>\<open>
  #define MAX_INT ((uint64_t) INT64_MAX + 1)
  #define MAX_POS_INT (MAX_INT - 1)
  #define MAX_EXP (-DBL_MIN_10_EXP)
  #define MAX_LEN INT16_MAX
  \<close>
  \<open>DBL_MIN_10_EXP\<close> comes from \<open>float.h\<close>, which the header includes and which is
  not part of the repository. For the IEEE 754 double of the platforms the program is
  built on its value is \<open>-307\<close>, so \<open>MAX_EXP\<close> is 307. The header's own
  \<open>#define DBL_MIN_10_EXP -308\<close> stands under \<open>#ifndef DBL_MAX_10_EXP\<close> after the
  include; \<open>float.h\<close> defines \<open>DBL_MAX_10_EXP\<close>, so that line is skipped.
\<close>

definition MAX_INT :: "64 word" where
  "MAX_INT = 2 ^ 63"

definition MAX_POS_INT :: "64 word" where
  "MAX_POS_INT = MAX_INT - 1"

definition DBL_MIN_10_EXP :: int where
  "DBL_MIN_10_EXP = - 307"

definition MAX_EXP :: int where
  "MAX_EXP = - DBL_MIN_10_EXP"

definition MAX_LEN :: int where
  "MAX_LEN = 32767"

subsection \<open>number\_parser\_init and the setters (number\_parser.h)\<close>

text \<open>
  \<^verbatim>\<open>*parser = (number_parser) { .base = base, .rad_off = -1 };\<close>
  Every member that is not named is zero.
\<close>

definition number_parser_init :: "8 word \<Rightarrow> number_parser" where
  "number_parser_init b =
     \<lparr> int_len = 0, rad_off = - 1, exp_val = 0, base = b,
       sign = False, exp_sign = False, is_float = False, has_exp = False, was_int = False,
       bits = 0 \<rparr>"

text \<open>\<^verbatim>\<open>parser->rad_off = parser->int_len;\<close>\<close>

definition number_parser_set_rad_point :: "number_parser \<Rightarrow> number_parser" where
  "number_parser_set_rad_point p = p\<lparr>rad_off := int_len p\<rparr>"

text \<open>\<^verbatim>\<open>parser->sign = negative != 0;\<close>\<close>

definition number_parser_set_neg :: "number_parser \<Rightarrow> int \<Rightarrow> number_parser" where
  "number_parser_set_neg p negative = p\<lparr>sign := (negative \<noteq> 0)\<rparr>"

text \<open>\<^verbatim>\<open>parser->exp_sign = negative != 0;\<close>\<close>

definition number_parser_set_exp_neg :: "number_parser \<Rightarrow> int \<Rightarrow> number_parser" where
  "number_parser_set_exp_neg p negative = p\<lparr>exp_sign := (negative \<noteq> 0)\<rparr>"

subsection \<open>convert\_to\_float\<close>

text \<open>
  \<^verbatim>\<open>
  if (!parser->is_float) {
      parser->is_float = 1;
      parser->fval = parser->uval;
  }
  \<close>
\<close>

definition convert_to_float :: "double_ops \<Rightarrow> number_parser \<Rightarrow> number_parser" where
  "convert_to_float fp p =
     (if \<not> is_float p
      then p\<lparr>is_float := True, bits := d_of_int fp (uint (uval p))\<rparr>
      else p)"

subsection \<open>number\_parser\_add\_digit\<close>

text \<open>
  \<^verbatim>\<open>
  if (parser->int_len >= MAX_LEN) { return; }
  if (!parser->is_float) {
      if (parser->uval > MAX_INT / parser->base) { convert_to_float(parser); }
  }
  if (!parser->is_float) {
      parser->uval *= parser->base;
      if (parser->uval > MAX_INT - digit) {
          convert_to_float(parser);
          parser->fval += digit;
      }
      else { parser->uval += digit; }
  }
  else { parser->fval = parser->fval * parser->base + digit; }
  parser->int_len ++;
  \<close>
  The division \<open>MAX_INT / parser->base\<close> is a division by zero when \<open>base\<close> is 0
  (the header asks for a base between 2 and 255 and does not check it). HOL's
  division would return 0 there, so the model returns \<open>None\<close> for this one case; every
  other path returns \<open>Some\<close> of the updated struct. In \<open>MAX_INT - digit\<close> and
  \<open>uval += digit\<close> the \<open>int\<close> digit is converted to \<open>uint64_t\<close>, which is
  \<open>word_of_int\<close>.
\<close>

definition add_digit_int :: "double_ops \<Rightarrow> number_parser \<Rightarrow> int \<Rightarrow> number_parser" where
  "add_digit_int fp p digit =
     (let p1 = p\<lparr>bits := uval p * ucast (base p)\<rparr> in
      if uval p1 > MAX_INT - word_of_int digit
      then (let p2 = convert_to_float fp p1
            in p2\<lparr>bits := d_add fp (fval p2) (d_of_int fp digit)\<rparr>)
      else p1\<lparr>bits := uval p1 + word_of_int digit\<rparr>)"

definition add_digit_float :: "double_ops \<Rightarrow> number_parser \<Rightarrow> int \<Rightarrow> number_parser" where
  "add_digit_float fp p digit =
     p\<lparr>bits := d_add fp (d_mul fp (fval p) (d_of_int fp (uint (base p))))
                         (d_of_int fp digit)\<rparr>"

definition number_parser_add_digit ::
    "double_ops \<Rightarrow> number_parser \<Rightarrow> int \<Rightarrow> number_parser option" where
  "number_parser_add_digit fp p digit =
     (if MAX_LEN \<le> sint (int_len p) then Some p
      else if \<not> is_float p \<and> base p = 0 then None
      else
        (let p1 = (if \<not> is_float p \<and> uval p > MAX_INT div ucast (base p)
                   then convert_to_float fp p else p);
             p2 = (if \<not> is_float p1 then add_digit_int fp p1 digit
                   else add_digit_float fp p1 digit)
         in Some (p2\<lparr>int_len := int_len p2 + 1\<rparr>)))"

subsection \<open>number\_parser\_add\_exp\_digit\<close>

text \<open>
  \<^verbatim>\<open>
  if (parser->exp_val < MAX_EXP) {
      parser->exp_val = parser->exp_val * parser->base + digit;
      parser->has_exp = 1;
  }
  \<close>
  The right-hand side is computed in \<open>int\<close>; storing it in the \<open>int16_t\<close> member keeps
  its low 16 bits (\<open>word_of_int\<close>), as the compilers in use do for a value that does
  not fit.
\<close>

definition number_parser_add_exp_digit :: "number_parser \<Rightarrow> int \<Rightarrow> number_parser" where
  "number_parser_add_exp_digit p digit =
     (if sint (exp_val p) < MAX_EXP
      then p\<lparr>exp_val := word_of_int (sint (exp_val p) * uint (base p) + digit),
              has_exp := True\<rparr>
      else p)"

subsection \<open>number\_parser\_end\<close>

text \<open>
  The loop
  \<^verbatim>\<open>
  while (n) {
      if (n & 1) { e *= d; }
      n >>= 1;
      d *= d;
  }
  \<close>
  is entered with \<open>n \<ge> 0\<close> (the statement before it replaces a negative \<open>n\<close> by
  \<open>-n\<close>), so the counter is a natural number here.
\<close>

fun pow_loop :: "double_ops \<Rightarrow> nat \<Rightarrow> double \<Rightarrow> double \<Rightarrow> double" where
  "pow_loop fp n d e =
     (if n = 0 then e
      else pow_loop fp (n div 2) (d_mul fp d d) (if odd n then d_mul fp e d else e))"

text \<open>
  The floating-point branch:
  \<^verbatim>\<open>
  int n = parser->exp_val;  double d = parser->base;  double e = 1.0;
  if (parser->exp_sign) { n = -n; }
  if (parser->rad_off >= 0) { n -= parser->int_len - parser->rad_off; }
  if (n < 0) { parser->exp_sign = 1; n = -n; }
  while (n) ...
  if (parser->sign) { parser->fval = -parser->fval; }
  if (parser->exp_sign) { parser->fval /= e; } else { parser->fval *= e; }
  \<close>
\<close>

definition end_exponent :: "number_parser \<Rightarrow> int" where
  "end_exponent p =
     (let n = sint (exp_val p);
          n = (if exp_sign p then - n else n)
      in if 0 \<le> sint (rad_off p) then n - (sint (int_len p) - sint (rad_off p)) else n)"

definition end_float :: "double_ops \<Rightarrow> number_parser \<Rightarrow> number_parser" where
  "end_float fp p =
     (let n = end_exponent p;
          p1 = (if n < 0 then p\<lparr>exp_sign := True\<rparr> else p);
          n = (if n < 0 then - n else n);
          e = pow_loop fp (nat n) (d_of_int fp (uint (base p))) (d_of_int fp 1);
          p2 = (if sign p1 then p1\<lparr>bits := d_neg fp (fval p1)\<rparr> else p1)
      in if exp_sign p2 then p2\<lparr>bits := d_div fp (fval p2) e\<rparr>
         else p2\<lparr>bits := d_mul fp (fval p2) e\<rparr>)"

text \<open>
  \<^verbatim>\<open>
  if ((!parser->sign && parser->uval > MAX_POS_INT) || parser->has_exp || parser->rad_off >= 0) {
      convert_to_float(parser);
  }
  if (parser->is_float) { ... }
  else if (parser->sign) { parser->ival = -parser->ival; }
  return parser->is_float;
  \<close>
  The function returns \<open>is_float\<close> and leaves the number in the struct, so the model
  returns the pair of both. \<open>-parser->ival\<close> is the two's complement negation of the
  cell (for \<open>INT64_MIN\<close> it gives \<open>INT64_MIN\<close> again).
\<close>

definition number_parser_end :: "double_ops \<Rightarrow> number_parser \<Rightarrow> int \<times> number_parser" where
  "number_parser_end fp p =
     (let p1 = (if (\<not> sign p \<and> uval p > MAX_POS_INT) \<or> has_exp p \<or> 0 \<le> sint (rad_off p)
                then convert_to_float fp p else p);
          p2 = (if is_float p1 then end_float fp p1
                else if sign p1 then p1\<lparr>bits := - bits p1\<rparr>
                else p1)
      in (if is_float p2 then 1 else 0, p2))"

subsection \<open>Sequences of calls\<close>

text \<open>
  The five functions a caller uses between \<open>number_parser_init\<close> and
  \<open>number_parser_end\<close>, as a datatype, and the struct after a list of calls.
  \<open>None\<close> is the division by zero of \<open>number_parser_add_digit\<close>.
\<close>

datatype call =
    Add_digit int
  | Add_exp_digit int
  | Set_rad_point
  | Set_neg int
  | Set_exp_neg int

fun do_call :: "double_ops \<Rightarrow> number_parser \<Rightarrow> call \<Rightarrow> number_parser option" where
  "do_call fp p (Add_digit d) = number_parser_add_digit fp p d"
| "do_call fp p (Add_exp_digit d) = Some (number_parser_add_exp_digit p d)"
| "do_call fp p Set_rad_point = Some (number_parser_set_rad_point p)"
| "do_call fp p (Set_neg n) = Some (number_parser_set_neg p n)"
| "do_call fp p (Set_exp_neg n) = Some (number_parser_set_exp_neg p n)"

fun do_calls :: "double_ops \<Rightarrow> number_parser \<Rightarrow> call list \<Rightarrow> number_parser option" where
  "do_calls fp p [] = Some p"
| "do_calls fp p (c # cs) =
     (case do_call fp p c of None \<Rightarrow> None | Some p' \<Rightarrow> do_calls fp p' cs)"

text \<open>The mantissa digits of a number, most significant first.\<close>

fun add_digits :: "double_ops \<Rightarrow> number_parser \<Rightarrow> int list \<Rightarrow> number_parser option" where
  "add_digits fp p [] = Some p"
| "add_digits fp p (d # ds) =
     (case number_parser_add_digit fp p d of None \<Rightarrow> None | Some p' \<Rightarrow> add_digits fp p' ds)"

text \<open>
  What the header asks of a digit: \<open>An integer between 0 and base - 1\<close>.
  Neither function checks it.
\<close>

fun valid_call :: "8 word \<Rightarrow> call \<Rightarrow> bool" where
  "valid_call b (Add_digit d) = (0 \<le> d \<and> d < uint b)"
| "valid_call b (Add_exp_digit d) = (0 \<le> d \<and> d < uint b)"
| "valid_call b Set_rad_point = True"
| "valid_call b (Set_neg n) = True"
| "valid_call b (Set_exp_neg n) = True"

text \<open>
  The number a digit sequence denotes in base \<open>b\<close>, most significant digit first. This
  is the mathematical value the results are compared with, not a function of the source.
\<close>

definition digits_value :: "int \<Rightarrow> int list \<Rightarrow> int" where
  "digits_value b ds = foldl (\<lambda>v d. v * b + d) 0 ds"

section \<open>Word arithmetic of the integer path\<close>

lemma uint_base64: "uint (ucast (b :: 8 word) :: 64 word) = uint b"
  by (simp add: uint_up_ucast is_up)

lemma uint_base_pos: "b \<noteq> 0 \<Longrightarrow> 0 < uint (b :: 8 word)"
  using uint_ge_0 [of b] by (simp add: order_less_le uint_0_iff)

lemma uint_MAX_INT: "uint MAX_INT = 2 ^ 63"
  by (simp add: MAX_INT_def)

lemma gt_div_iff:
  "(u > MAX_INT div ucast (b :: 8 word)) \<longleftrightarrow> (uint u > 2 ^ 63 div uint b)"
  by (simp add: word_less_def uint_div uint_base64 uint_MAX_INT)

lemma uint_digit:
  assumes "0 \<le> d" "d \<le> 2 ^ 63"
  shows "uint (word_of_int d :: 64 word) = d"
  using assms by (simp add: uint_word_of_int take_bit_eq_mod)

lemma uint_MAX_minus:
  assumes "0 \<le> d" "d \<le> 2 ^ 63"
  shows "uint (MAX_INT - word_of_int d :: 64 word) = 2 ^ 63 - d"
proof -
  have "uint (MAX_INT - word_of_int d :: 64 word) = (2 ^ 63 - d) mod 2 ^ 64"
    using assms by (simp add: uint_word_ariths uint_MAX_INT uint_digit)
  also have "\<dots> = 2 ^ 63 - d"
    using assms by (intro mod_pos_pos_trivial) simp_all
  finally show ?thesis .
qed

lemma uint_mul_base:
  assumes "uint (u :: 64 word) \<le> 2 ^ 63 div uint (b :: 8 word)" "b \<noteq> 0"
  shows "uint (u * ucast b) = uint u * uint b" "uint u * uint b \<le> 2 ^ 63"
proof -
  have b: "0 < uint b" using assms(2) by (rule uint_base_pos)
  have "uint u * uint b \<le> (2 ^ 63 div uint b) * uint b"
    using assms(1) b by (intro mult_right_mono) simp_all
  also have "\<dots> \<le> 2 ^ 63"
    using b div_mult_mod_eq [of "2 ^ 63" "uint b"] pos_mod_sign [of "uint b" "2 ^ 63"]
    by linarith
  finally show le: "uint u * uint b \<le> 2 ^ 63" .
  have "uint (u * ucast b) = (uint u * uint b) mod 2 ^ 64"
    by (simp add: uint_word_ariths uint_base64)
  also have "\<dots> = uint u * uint b"
    using le b by (intro mod_pos_pos_trivial) simp_all
  finally show "uint (u * ucast b) = uint u * uint b" .
qed

lemma gt_div_imp:
  assumes "uint (u :: 64 word) > 2 ^ 63 div uint (b :: 8 word)" "0 < uint b"
  shows "uint u * uint b > 2 ^ 63"
proof -
  have "2 ^ 63 = (2 ^ 63 div uint b) * uint b + 2 ^ 63 mod uint b"
    by simp
  also have "\<dots> < (2 ^ 63 div uint b) * uint b + uint b"
    using assms(2) pos_mod_bound [of "uint b" "2 ^ 63"] by linarith
  also have "\<dots> = (2 ^ 63 div uint b + 1) * uint b"
    by (simp add: algebra_simps)
  also have "\<dots> \<le> uint u * uint b"
    using assms by (intro mult_right_mono) simp_all
  finally show ?thesis .
qed

lemma sint_inc:
  assumes "sint (x :: 16 word) < 32767"
  shows "sint (x + 1) = sint x + 1"
proof -
  have lo: "- (2 ^ 15) \<le> sint x" using sint_ge [of x] by simp
  have "sint (x + 1) = signed_take_bit 15 (sint x + 1)"
    by (simp add: sint_word_ariths)
  also have "\<dots> = sint x + 1"
    using lo assms by (intro signed_take_bit_int_eq_self) simp_all
  finally show ?thesis .
qed

section \<open>One call of number\_parser\_add\_digit\<close>

lemmas add_digit_defs = number_parser_add_digit_def add_digit_int_def add_digit_float_def
  convert_to_float_def uval_def fval_def Let_def

text \<open>The call touches \<open>int_len\<close>, \<open>is_float\<close> and the union only, and never clears \<open>is_float\<close>.\<close>

lemma add_digit_frame:
  assumes "number_parser_add_digit fp p d = Some q"
  shows "base q = base p" "rad_off q = rad_off p" "exp_val q = exp_val p" "sign q = sign p"
    "exp_sign q = exp_sign p" "has_exp q = has_exp p" "was_int q = was_int p"
    "is_float p \<Longrightarrow> is_float q"
  using assms by (auto simp: add_digit_defs split: if_splits)

text \<open>With a base other than 0 the call returns.\<close>

lemma add_digit_total:
  "base p \<noteq> 0 \<Longrightarrow> \<exists>q. number_parser_add_digit fp p d = Some q"
  by (simp add: number_parser_add_digit_def Let_def)

lemma add_digit_int_len:
  assumes "number_parser_add_digit fp p d = Some q"
  shows "sint (int_len q) =
    (if MAX_LEN \<le> sint (int_len p) then sint (int_len p) else sint (int_len p) + 1)"
  using assms by (auto simp: add_digit_defs MAX_LEN_def sint_inc split: if_splits)

text \<open>At the cap the call returns at once.\<close>

lemma add_digit_at_cap:
  "MAX_LEN \<le> sint (int_len p) \<Longrightarrow> number_parser_add_digit fp p d = Some p"
  by (simp add: number_parser_add_digit_def)

text \<open>
  While the new magnitude \<open>uval * base + digit\<close> is at most \<open>2^63\<close>, the call stays on
  the integer path and stores exactly that magnitude.
\<close>

lemma add_digit_exact:
  assumes "\<not> is_float p" "sint (int_len p) < MAX_LEN" "base p \<noteq> 0"
    and "0 \<le> d" "uint (bits p) * uint (base p) + d \<le> 2 ^ 63"
  shows "number_parser_add_digit fp p d =
     Some (p\<lparr>bits := word_of_int (uint (bits p) * uint (base p) + d),
             int_len := int_len p + 1\<rparr>)"
proof -
  have b: "0 < uint (base p)" using assms(3) by (rule uint_base_pos)
  have ub: "uint (bits p) * uint (base p) \<le> 2 ^ 63" using assms(4,5) by linarith
  have d: "d \<le> 2 ^ 63"
    using assms(4,5) b by (smt (verit) mult_nonneg_nonneg uint_ge_0)
  have nogt: "\<not> uint (bits p) > 2 ^ 63 div uint (base p)"
    using gt_div_imp [of "base p" "bits p"] b ub by linarith
  then have le: "uint (bits p) \<le> 2 ^ 63 div uint (base p)" by simp
  note m = uint_mul_base [OF le assms(3)]
  have step2: "\<not> bits p * ucast (base p) > MAX_INT - word_of_int d"
    using assms(4,5) d by (simp add: word_less_def m uint_MAX_minus)
  have val: "bits p * ucast (base p) + word_of_int d =
      word_of_int (uint (bits p) * uint (base p) + d)"
    by simp
  show ?thesis
    using assms(1,2,3) nogt step2 val
    by (simp add: number_parser_add_digit_def add_digit_int_def uval_def Let_def gt_div_iff)
qed

text \<open>
  After a call with a digit that is not negative, the struct is floating-point or its
  magnitude is at most \<open>2^63\<close>.
\<close>

lemma add_digit_bound:
  assumes q: "number_parser_add_digit fp p d = Some q"
    and d: "0 \<le> d" "d \<le> 2 ^ 63"
    and inv: "\<not> is_float p \<longrightarrow> uint (uval p) \<le> 2 ^ 63"
  shows "\<not> is_float q \<longrightarrow> uint (uval q) \<le> 2 ^ 63"
proof (cases "MAX_LEN \<le> sint (int_len p) \<or> is_float p")
  case True
  then show ?thesis using q inv by (auto simp: add_digit_defs split: if_splits)
next
  case False
  then have b: "base p \<noteq> 0" using q by (auto simp: add_digit_defs split: if_splits)
  show ?thesis
  proof (cases "uint (bits p) > 2 ^ 63 div uint (base p)")
    case True
    then show ?thesis
      using q False b by (auto simp: add_digit_defs gt_div_iff split: if_splits)
  next
    case le: False
    then have le': "uint (bits p) \<le> 2 ^ 63 div uint (base p)" by simp
    note m = uint_mul_base [OF le' b]
    show ?thesis
    proof (cases "bits p * ucast (base p) > MAX_INT - word_of_int d")
      case True
      then show ?thesis
        using q False b le by (auto simp: add_digit_defs gt_div_iff split: if_splits)
    next
      case no: False
      then have s: "uint (bits p) * uint (base p) + d \<le> 2 ^ 63"
        using d by (simp add: word_less_def m uint_MAX_minus)
      have "number_parser_add_digit fp p d =
        Some (p\<lparr>bits := word_of_int (uint (bits p) * uint (base p) + d),
                int_len := int_len p + 1\<rparr>)"
        using False b d s by (intro add_digit_exact) simp_all
      with q have "uint (uval q) =
          uint (word_of_int (uint (bits p) * uint (base p) + d) :: 64 word)"
        by (auto simp: uval_def)
      also have "\<dots> = uint (bits p) * uint (base p) + d"
        using s d by (intro uint_digit) simp_all
      finally show ?thesis using s by simp
    qed
  qed
qed

text \<open>
  When the new magnitude \<open>uval * base + digit\<close> is above \<open>2^63\<close>, the call sets
  \<open>is_float\<close>: at the first test or, if the product still fits, at the second.
\<close>

lemma add_digit_promotes:
  assumes q: "number_parser_add_digit fp p d = Some q"
    and nf: "\<not> is_float p" and len: "sint (int_len p) < MAX_LEN"
    and d: "0 \<le> d" "d \<le> 2 ^ 63"
    and over: "2 ^ 63 < uint (uval p) * uint (base p) + d"
  shows "is_float q"
proof -
  have b: "base p \<noteq> 0" using q nf len by (auto simp: add_digit_defs split: if_splits)
  show ?thesis
  proof (cases "uint (bits p) > 2 ^ 63 div uint (base p)")
    case True
    then show ?thesis
      using q nf len b by (auto simp: add_digit_defs gt_div_iff split: if_splits)
  next
    case False
    then have le: "uint (bits p) \<le> 2 ^ 63 div uint (base p)" by simp
    note m = uint_mul_base [OF le b]
    have "bits p * ucast (base p) > MAX_INT - word_of_int d"
      using over d by (simp add: word_less_def m uint_MAX_minus uval_def)
    then show ?thesis
      using q nf len b False by (auto simp: add_digit_defs gt_div_iff split: if_splits)
  qed
qed

section \<open>Digit sequences\<close>

text \<open>
  The value of a digit sequence, continued from a start value \<open>v\<close>: it is not negative,
  and with a base of at least 1 it is at least \<open>v\<close>, so every prefix of a sequence has at
  most the value of the whole.
\<close>

lemma foldl_nonneg:
  assumes "0 \<le> b" "\<forall>d\<in>set ds. 0 \<le> d" "0 \<le> (v::int)"
  shows "0 \<le> foldl (\<lambda>v d. v * b + d) v ds"
  using assms
proof (induction ds arbitrary: v)
  case Nil
  then show ?case by simp
next
  case (Cons d ds)
  have "0 \<le> v * b + d" using Cons.prems by simp
  then show ?case using Cons.IH [of "v * b + d"] Cons.prems by simp
qed

lemma foldl_ge_start:
  assumes "1 \<le> b" "\<forall>d\<in>set ds. 0 \<le> d" "0 \<le> (v::int)"
  shows "v \<le> foldl (\<lambda>v d. v * b + d) v ds"
  using assms
proof (induction ds arbitrary: v)
  case Nil then show ?case by simp
next
  case (Cons d ds)
  have "v * 1 \<le> v * b" using Cons.prems by (intro mult_left_mono) simp_all
  then have "v \<le> v * b + d" using Cons.prems by simp
  moreover have "0 \<le> v * b + d" using Cons.prems by simp
  ultimately show ?case using Cons.IH [of "v * b + d"] Cons.prems by fastforce
qed

text \<open>
  A digit sequence whose value stays at most \<open>2^63\<close> and whose digits fit under the cap
  is accumulated exactly, on the integer path.
\<close>

lemma add_digits_exact:
  assumes "\<not> is_float p" "base p \<noteq> 0" "\<forall>d\<in>set ds. 0 \<le> d"
    and "0 \<le> sint (int_len p)" "sint (int_len p) + int (length ds) \<le> MAX_LEN"
    and "uint (bits p) \<le> 2 ^ 63" "foldl (\<lambda>v d. v * uint (base p) + d) (uint (bits p)) ds \<le> 2 ^ 63"
  shows "add_digits fp p ds =
     Some (p\<lparr>bits := word_of_int (foldl (\<lambda>v d. v * uint (base p) + d) (uint (bits p)) ds),
             int_len := int_len p + of_nat (length ds)\<rparr>)"
  using assms
proof (induction ds arbitrary: p)
  case Nil
  then show ?case by simp
next
  case (Cons d ds)
  let ?b = "uint (base p)"
  let ?v = "uint (bits p) * ?b + d"
  let ?p = "p\<lparr>bits := word_of_int ?v, int_len := int_len p + 1\<rparr>"
  have b: "1 \<le> ?b" using uint_base_pos [OF Cons.prems(2)] by simp
  have d: "0 \<le> d" and ds: "\<forall>d\<in>set ds. 0 \<le> d" using Cons.prems(3) by simp_all
  have v0: "0 \<le> ?v" using d b by simp
  have "?v \<le> foldl (\<lambda>v d. v * ?b + d) ?v ds"
    using b ds v0 by (rule foldl_ge_start)
  then have v: "?v \<le> 2 ^ 63" using Cons.prems(7) by simp
  have len: "sint (int_len p) < MAX_LEN" using Cons.prems(5) by simp
  have step: "number_parser_add_digit fp p d = Some ?p"
    using Cons.prems(1) len Cons.prems(2) d v by (rule add_digit_exact)
  have uv: "uint (bits ?p) = ?v" using uint_digit [OF v0 v] by simp
  have sl: "sint (int_len ?p) = sint (int_len p) + 1"
    using len by (simp add: sint_inc MAX_LEN_def)
  have "add_digits fp ?p ds =
     Some (?p\<lparr>bits := word_of_int (foldl (\<lambda>v d. v * uint (base ?p) + d) (uint (bits ?p)) ds),
             int_len := int_len ?p + of_nat (length ds)\<rparr>)"
  proof (rule Cons.IH)
    show "\<not> is_float ?p" using Cons.prems(1) by simp
    show "base ?p \<noteq> 0" using Cons.prems(2) by simp
    show "\<forall>d\<in>set ds. 0 \<le> d" by (rule ds)
    show "0 \<le> sint (int_len ?p)" using Cons.prems(4) sl by simp
    show "sint (int_len ?p) + int (length ds) \<le> MAX_LEN" using Cons.prems(5) sl by simp
    show "uint (bits ?p) \<le> 2 ^ 63" using uv v by simp
    show "foldl (\<lambda>v d. v * uint (base ?p) + d) (uint (bits ?p)) ds \<le> 2 ^ 63"
      using Cons.prems(7) uv by simp
  qed
  then show ?case using step uv by (simp add: add.assoc)
qed

lemma sint64_of_int:
  assumes "- (2 ^ 63) \<le> k" "k < 2 ^ 63"
  shows "sint (word_of_int k :: 64 word) = k"
proof -
  have "sint (word_of_int k :: 64 word) = signed_take_bit 63 k"
    by (simp add: signed_of_int)
  also have "\<dots> = k"
    using assms by (intro signed_take_bit_int_eq_self) simp_all
  finally show ?thesis .
qed

lemma add_digits_append:
  "add_digits fp p (xs @ ys) =
     (case add_digits fp p xs of None \<Rightarrow> None | Some q \<Rightarrow> add_digits fp q ys)"
  by (induction xs arbitrary: p) (auto split: option.splits)

lemma digits_value_nonneg:
  assumes "0 \<le> b" "\<forall>d\<in>set ds. 0 \<le> d"
  shows "0 \<le> digits_value b ds"
  using foldl_nonneg [OF assms, of 0] by (simp add: digits_value_def)

lemma digits_value_take:
  assumes "1 \<le> b" "\<forall>d\<in>set ds. 0 \<le> d"
  shows "digits_value b (take k ds) \<le> digits_value b ds"
proof -
  have t: "\<forall>d\<in>set (take k ds). 0 \<le> d" and dr: "\<forall>d\<in>set (drop k ds). 0 \<le> d"
    using assms(2) by (auto dest: in_set_takeD in_set_dropD)
  have "0 \<le> digits_value b (take k ds)"
    using assms(1) t by (intro digits_value_nonneg) simp_all
  then have "digits_value b (take k ds)
      \<le> foldl (\<lambda>v d. v * b + d) (digits_value b (take k ds)) (drop k ds)"
    using assms(1) dr by (intro foldl_ge_start) simp_all
  also have "\<dots> = digits_value b (take k ds @ drop k ds)"
    unfolding digits_value_def foldl_append ..
  finally show ?thesis by simp
qed

lemma digits_value_zeros: "digits_value b (replicate n 0) = 0"
proof -
  have "foldl (\<lambda>v d. v * b + d) 0 (replicate n 0) = 0"
    by (induction n) simp_all
  then show ?thesis by (simp add: digits_value_def)
qed

lemma add_digits_init_exact:
  assumes "b \<noteq> 0" "\<forall>d\<in>set ds. 0 \<le> d" "int (length ds) \<le> MAX_LEN"
    and "digits_value (uint b) ds \<le> 2 ^ 63"
  shows "add_digits fp (number_parser_init b) ds =
     Some ((number_parser_init b)\<lparr>bits := word_of_int (digits_value (uint b) ds),
             int_len := of_nat (length ds)\<rparr>)"
proof -
  let ?p = "number_parser_init b"
  have "add_digits fp ?p ds =
     Some (?p\<lparr>bits := word_of_int (foldl (\<lambda>v d. v * uint (base ?p) + d) (uint (bits ?p)) ds),
             int_len := int_len ?p + of_nat (length ds)\<rparr>)"
    using assms by (intro add_digits_exact) (simp_all add: number_parser_init_def digits_value_def)
  then show ?thesis by (simp add: number_parser_init_def digits_value_def)
qed

text \<open>32767 zeros bring \<open>int_len\<close> to the cap and leave the magnitude 0.\<close>

lemma zeros_to_cap:
  assumes "b \<noteq> 0"
  shows "add_digits fp (number_parser_init b) (replicate 32767 0) =
     Some ((number_parser_init b)\<lparr>int_len := 32767\<rparr>)"
proof -
  have "add_digits fp (number_parser_init b) (replicate 32767 0) =
     Some ((number_parser_init b)\<lparr>bits := word_of_int (digits_value (uint b) (replicate 32767 0)),
             int_len := of_nat (length (replicate 32767 (0::int)))\<rparr>)"
    using assms by (intro add_digits_init_exact) (simp_all add: MAX_LEN_def digits_value_zeros)
  then show ?thesis by (simp add: digits_value_zeros number_parser_init_def)
qed

section \<open>number\_parser\_end\<close>

lemma uint_MAX_POS_INT: "uint MAX_POS_INT = 2 ^ 63 - 1"
  by (simp add: MAX_POS_INT_def MAX_INT_def)

text \<open>The integer branch, and the test that sends \<open>number_parser_end\<close> to the other one.\<close>

lemma end_integer:
  assumes "\<not> is_float p" "\<not> has_exp p" "sint (rad_off p) < 0"
    and "sign p \<or> uint (uval p) \<le> 2 ^ 63 - 1"
  shows "number_parser_end fp p = (0, if sign p then p\<lparr>bits := - bits p\<rparr> else p)"
  using assms
  by (auto simp: number_parser_end_def Let_def word_less_def uint_MAX_POS_INT)

lemma end_float_is_float: "is_float (end_float fp p) = is_float p"
  by (simp add: end_float_def Let_def)

lemma end_float_frame:
  "rad_off (end_float fp p) = rad_off p" "int_len (end_float fp p) = int_len p"
  "base (end_float fp p) = base p" "sign (end_float fp p) = sign p"
  "has_exp (end_float fp p) = has_exp p" "exp_val (end_float fp p) = exp_val p"
  by (simp_all add: end_float_def Let_def)

lemma end_forced:
  assumes "(\<not> sign p \<and> uval p > MAX_POS_INT) \<or> has_exp p \<or> 0 \<le> sint (rad_off p)"
  shows "fst (number_parser_end fp p) = 1" "is_float (snd (number_parser_end fp p))"
  using assms
  by (auto simp: number_parser_end_def Let_def convert_to_float_def end_float_is_float)


section \<open>Sequences of calls\<close>

lemmas setter_defs = number_parser_set_rad_point_def number_parser_set_neg_def
  number_parser_set_exp_neg_def number_parser_add_exp_digit_def

lemmas run_defs = add_digit_defs setter_defs number_parser_init_def MAX_LEN_def MAX_INT_def
  MAX_EXP_def DBL_MIN_10_EXP_def

text \<open>
  Only \<open>number_parser_init\<close> writes \<open>base\<close>, and a sequence of calls on a base other
  than 0 returns.
\<close>

lemma do_call_base:
  assumes "do_call fp p c = Some q"
  shows "base q = base p"
  using assms by (cases c) (auto simp: setter_defs add_digit_frame)

lemma do_calls_base:
  "do_calls fp p cs = Some q \<Longrightarrow> base q = base p"
  by (induction cs arbitrary: p) (auto split: option.splits dest: do_call_base)

lemma do_call_total:
  "base p \<noteq> 0 \<Longrightarrow> \<exists>q. do_call fp p c = Some q"
  by (cases c) (simp_all add: add_digit_total)

lemma do_calls_total:
  "base p \<noteq> 0 \<Longrightarrow> \<exists>q. do_calls fp p cs = Some q"
proof (induction cs arbitrary: p)
  case Nil
  then show ?case by simp
next
  case (Cons c cs)
  obtain p' where c: "do_call fp p c = Some p'"
    using do_call_total [OF Cons.prems] by blast
  then have "base p' \<noteq> 0" using Cons.prems do_call_base by metis
  then show ?case using Cons.IH c by simp
qed

lemma MAX_EXP_pos: "0 < MAX_EXP"
  by (simp add: MAX_EXP_def DBL_MIN_10_EXP_def)

text \<open>
  Once \<open>has_exp\<close> is set or \<open>rad_off\<close> is not negative, it stays so; a call of
  \<open>number_parser_set_rad_point\<close> or \<open>number_parser_add_exp_digit\<close> makes it so. The
  first exponent digit is always taken, as \<open>exp_val\<close> is 0 until \<open>has_exp\<close> is set.
\<close>

lemma do_call_forced:
  assumes c: "do_call fp p c = Some q"
    and len: "0 \<le> sint (int_len p)" and ex: "has_exp p \<or> exp_val p = 0"
  shows "0 \<le> sint (int_len q)" "has_exp q \<or> exp_val q = 0"
    "has_exp p \<or> 0 \<le> sint (rad_off p) \<Longrightarrow> has_exp q \<or> 0 \<le> sint (rad_off q)"
    "c = Set_rad_point \<or> (\<exists>d. c = Add_exp_digit d) \<Longrightarrow> has_exp q \<or> 0 \<le> sint (rad_off q)"
proof -
  show "0 \<le> sint (int_len q)"
    using c len by (cases c) (auto simp: setter_defs dest: add_digit_int_len split: if_splits)
  show "has_exp q \<or> exp_val q = 0"
    using c ex by (cases c) (auto simp: setter_defs add_digit_frame split: if_splits)
  show "has_exp q \<or> 0 \<le> sint (rad_off q)" if "has_exp p \<or> 0 \<le> sint (rad_off p)"
    using c that len by (cases c) (auto simp: setter_defs add_digit_frame split: if_splits)
  show "has_exp q \<or> 0 \<le> sint (rad_off q)" if "c = Set_rad_point \<or> (\<exists>d. c = Add_exp_digit d)"
    using c that len ex MAX_EXP_pos by (auto simp: setter_defs split: if_splits)
qed

lemma do_calls_forced:
  assumes "do_calls fp p cs = Some q"
    and "0 \<le> sint (int_len p)" "has_exp p \<or> exp_val p = 0"
    and "(has_exp p \<or> 0 \<le> sint (rad_off p)) \<or> Set_rad_point \<in> set cs \<or> (\<exists>d. Add_exp_digit d \<in> set cs)"
  shows "has_exp q \<or> 0 \<le> sint (rad_off q)"
  using assms
proof (induction cs arbitrary: p)
  case Nil
  then show ?case by simp
next
  case (Cons c cs)
  from Cons.prems(1) obtain p' where c: "do_call fp p c = Some p'" and cs: "do_calls fp p' cs = Some q"
    by (auto split: option.splits)
  note f = do_call_forced [OF c Cons.prems(2,3)]
  have "(has_exp p' \<or> 0 \<le> sint (rad_off p')) \<or> Set_rad_point \<in> set cs \<or> (\<exists>d. Add_exp_digit d \<in> set cs)"
    using Cons.prems(4) f(3,4) by auto
  then show ?case using Cons.IH [OF cs f(1,2)] by simp
qed

text \<open>
  The bound on the integer magnitude along a sequence of calls with valid digits.
\<close>

lemma do_call_bound:
  assumes c: "do_call fp p c = Some q" and v: "valid_call (base p) c"
    and inv: "\<not> is_float p \<longrightarrow> uint (uval p) \<le> 2 ^ 63"
  shows "\<not> is_float q \<longrightarrow> uint (uval q) \<le> 2 ^ 63"
proof (cases c)
  case (Add_digit d)
  have "d < 256" using v Add_digit uint_bounded [of "base p"] by simp
  then have "d \<le> 2 ^ 63" by simp
  then show ?thesis using c v inv Add_digit add_digit_bound [of fp p d q] by simp
qed (use c inv in \<open>auto simp: setter_defs uval_def split: if_splits\<close>)

lemma do_calls_bound:
  assumes "do_calls fp p cs = Some q" "\<forall>c\<in>set cs. valid_call (base p) c"
    and "\<not> is_float p \<longrightarrow> uint (uval p) \<le> 2 ^ 63"
  shows "\<not> is_float q \<longrightarrow> uint (uval q) \<le> 2 ^ 63"
  using assms
proof (induction cs arbitrary: p)
  case Nil
  then show ?case by simp
next
  case (Cons c cs)
  from Cons.prems(1) obtain p' where c: "do_call fp p c = Some p'" and cs: "do_calls fp p' cs = Some q"
    by (auto split: option.splits)
  have b: "base p' = base p" using c by (rule do_call_base)
  have "\<not> is_float p' \<longrightarrow> uint (uval p') \<le> 2 ^ 63"
    using c Cons.prems(2,3) by (intro do_call_bound [OF c]) simp_all
  then show ?case using Cons.IH [OF cs] Cons.prems(2) b by simp
qed

text \<open>A sequence of \<open>number_parser_add_digit\<close> calls, as a sequence of calls.\<close>

lemma do_calls_add_digits:
  "do_calls fp p (map Add_digit ds) = add_digits fp p ds"
  by (induction ds arbitrary: p) (auto split: option.splits)

lemma add_digits_at_cap:
  "MAX_LEN \<le> sint (int_len p) \<Longrightarrow> add_digits fp p ds = Some p"
  by (induction ds) (simp_all add: add_digit_at_cap)

text \<open>
  \<open>number_parser_add_exp_digit\<close>: the guard, and the stored exponent when the new value
  fits the \<open>int16_t\<close> member (which it does for every base up to 106).
\<close>

lemma add_exp_digit_ignored:
  "MAX_EXP \<le> sint (exp_val p) \<Longrightarrow> number_parser_add_exp_digit p d = p"
  by (simp add: number_parser_add_exp_digit_def)

lemma add_exp_digit_taken:
  "sint (exp_val p) < MAX_EXP \<Longrightarrow>
   number_parser_add_exp_digit p d =
     p\<lparr>exp_val := word_of_int (sint (exp_val p) * uint (base p) + d), has_exp := True\<rparr>"
  by (simp add: number_parser_add_exp_digit_def)

lemma add_exp_digit_exact:
  assumes "0 \<le> sint (exp_val p)" "sint (exp_val p) < MAX_EXP" "uint (base p) \<le> 106"
    and "0 \<le> d" "d < uint (base p)"
  shows "sint (exp_val (number_parser_add_exp_digit p d)) = sint (exp_val p) * uint (base p) + d"
proof -
  let ?v = "sint (exp_val p) * uint (base p) + d"
  have "sint (exp_val p) * uint (base p) \<le> 307 * 106"
    using assms by (intro mult_mono) (simp_all add: MAX_EXP_def DBL_MIN_10_EXP_def)
  then have hi: "?v < 2 ^ 15" using assms(3,5) by simp
  have "0 \<le> sint (exp_val p) * uint (base p)"
    using assms(1) by (intro mult_nonneg_nonneg) simp_all
  then have lo: "- (2 ^ 15) \<le> ?v" using assms(4) by simp
  have "sint (word_of_int ?v :: 16 word) = signed_take_bit 15 ?v"
    by (subst sint_sbintrunc') simp
  also have "\<dots> = ?v"
    using lo hi by (intro signed_take_bit_int_eq_self) simp_all
  finally show ?thesis using assms(2) by (simp add: number_parser_add_exp_digit_def)
qed

section \<open>Properties\<close>

text \<open>
  C1 (as amended). For every base from 2 to 255 and every sequence of at most 32767
  digits, each between 0 and base - 1, most significant first, whose value with the chosen
  sign lies in \<open>[-2^63, 2^63 - 1]\<close>: \<open>number_parser_init\<close>, one
  \<open>number_parser_add_digit\<close> per digit, \<open>number_parser_set_neg\<close> and
  \<open>number_parser_end\<close> return 0 (integer) and leave exactly the signed value in
  \<open>ival\<close>; after every prefix of the digits the struct is still an integer.
  The bound on the length is needed: the function ignores every digit after the
  32767th.
\<close>

theorem C1_integer_exact:
  assumes b: "2 \<le> uint b"
    and ds: "\<forall>d\<in>set ds. 0 \<le> d \<and> d < uint b"
    and len: "length ds \<le> 32767"
    and lo: "- (2 ^ 63) \<le> (if neg \<noteq> 0 then - digits_value (uint b) ds else digits_value (uint b) ds)"
    and hi: "(if neg \<noteq> 0 then - digits_value (uint b) ds else digits_value (uint b) ds) \<le> 2 ^ 63 - 1"
  shows "\<exists>p. add_digits fp (number_parser_init b) ds = Some p \<and>
      (\<forall>k\<le>length ds. \<exists>q. add_digits fp (number_parser_init b) (take k ds) = Some q \<and> \<not> is_float q) \<and>
      fst (number_parser_end fp (number_parser_set_neg p neg)) = 0 \<and>
      ival (snd (number_parser_end fp (number_parser_set_neg p neg))) =
        (if neg \<noteq> 0 then - digits_value (uint b) ds else digits_value (uint b) ds)"
proof -
  let ?V = "digits_value (uint b) ds"
  let ?p = "(number_parser_init b)\<lparr>bits := word_of_int ?V, int_len := of_nat (length ds)\<rparr>"
  have b0: "b \<noteq> 0" using b by auto
  have ds0: "\<forall>d\<in>set ds. 0 \<le> d" using ds by simp
  have V0: "0 \<le> ?V" using b ds0 by (intro digits_value_nonneg) simp_all
  have V: "?V \<le> 2 ^ 63" using lo hi by (simp split: if_splits)
  have run: "add_digits fp (number_parser_init b) ds = Some ?p"
    using b0 ds0 len V by (intro add_digits_init_exact) (simp_all add: MAX_LEN_def)
  have pre: "\<exists>q. add_digits fp (number_parser_init b) (take k ds) = Some q \<and> \<not> is_float q" for k
  proof -
    have t: "\<forall>d\<in>set (take k ds). 0 \<le> d" using ds0 by (auto dest: in_set_takeD)
    have "digits_value (uint b) (take k ds) \<le> ?V"
      using b ds0 by (intro digits_value_take) simp_all
    then have "digits_value (uint b) (take k ds) \<le> 2 ^ 63" using V by simp
    then have "add_digits fp (number_parser_init b) (take k ds) =
       Some ((number_parser_init b)\<lparr>bits := word_of_int (digits_value (uint b) (take k ds)),
             int_len := of_nat (length (take k ds))\<rparr>)"
      using b0 t len by (intro add_digits_init_exact) (simp_all add: MAX_LEN_def)
    then show ?thesis by (simp add: number_parser_init_def)
  qed
  let ?s = "number_parser_set_neg ?p neg"
  have uv: "uint (uval ?s) = ?V"
    using uint_digit [OF V0 V] by (simp add: uval_def number_parser_set_neg_def)
  have e: "number_parser_end fp ?s = (0, if sign ?s then ?s\<lparr>bits := - bits ?s\<rparr> else ?s)"
  proof (rule end_integer)
    show "sign ?s \<or> uint (uval ?s) \<le> 2 ^ 63 - 1"
      using hi unfolding uv by (cases "neg = 0") (simp_all add: number_parser_set_neg_def)
  qed (simp_all add: number_parser_set_neg_def number_parser_init_def)
  have iv: "ival (snd (number_parser_end fp ?s)) = (if neg \<noteq> 0 then - ?V else ?V)"
  proof (cases "neg = 0")
    case True
    then have "sint (word_of_int ?V :: 64 word) = ?V"
      using hi V0 by (intro sint64_of_int) simp_all
    then show ?thesis using True e by (simp add: ival_def number_parser_set_neg_def)
  next
    case False
    have "sint (word_of_int (- ?V) :: 64 word) = - ?V"
      using lo V0 False by (intro sint64_of_int) simp_all
    then show ?thesis using False e by (simp add: ival_def number_parser_set_neg_def)
  qed
  show ?thesis
    using run pre iv e by (intro exI [of _ ?p]) simp
qed

text \<open>The theorem at the decimal digits of \<open>2^63\<close> with a negative sign.\<close>

theorem C1_integer_exact_witness:
  "\<forall>fp. \<exists>p. add_digits fp (number_parser_init 10)
          [9,2,2,3,3,7,2,0,3,6,8,5,4,7,7,5,8,0,8] = Some p \<and> \<not> is_float p \<and>
      fst (number_parser_end fp (number_parser_set_neg p 1)) = 0 \<and>
      ival (snd (number_parser_end fp (number_parser_set_neg p 1))) = - 9223372036854775808"
proof
  fix fp
  have "\<exists>p. add_digits fp (number_parser_init 10) [9,2,2,3,3,7,2,0,3,6,8,5,4,7,7,5,8,0,8] = Some p \<and>
      (\<forall>k\<le>length [9,2,2,3,3,7,2,0,3,6,8,5,4,7,7,5,8,0,8::int]. \<exists>q. add_digits fp (number_parser_init 10) (take k [9,2,2,3,3,7,2,0,3,6,8,5,4,7,7,5,8,0,8]) = Some q \<and> \<not> is_float q) \<and>
      fst (number_parser_end fp (number_parser_set_neg p 1)) = 0 \<and>
      ival (snd (number_parser_end fp (number_parser_set_neg p 1))) =
        (if (1::int) \<noteq> 0 then - digits_value (uint (10::8 word)) [9,2,2,3,3,7,2,0,3,6,8,5,4,7,7,5,8,0,8] else digits_value (uint (10::8 word)) [9,2,2,3,3,7,2,0,3,6,8,5,4,7,7,5,8,0,8])"
    by (rule C1_integer_exact) (simp_all add: digits_value_def)
  then obtain p where p: "add_digits fp (number_parser_init 10) [9,2,2,3,3,7,2,0,3,6,8,5,4,7,7,5,8,0,8] = Some p"
    and all: "\<forall>k\<le>length [9,2,2,3,3,7,2,0,3,6,8,5,4,7,7,5,8,0,8::int]. \<exists>q. add_digits fp (number_parser_init 10) (take k [9,2,2,3,3,7,2,0,3,6,8,5,4,7,7,5,8,0,8]) = Some q \<and> \<not> is_float q"
    and r: "fst (number_parser_end fp (number_parser_set_neg p 1)) = 0"
      "ival (snd (number_parser_end fp (number_parser_set_neg p 1))) = - digits_value (uint (10::8 word)) [9,2,2,3,3,7,2,0,3,6,8,5,4,7,7,5,8,0,8]"
    by auto
  from all [rule_format, of 19] p have "\<not> is_float p" by simp
  then show "\<exists>p. add_digits fp (number_parser_init 10)
          [9,2,2,3,3,7,2,0,3,6,8,5,4,7,7,5,8,0,8] = Some p \<and> \<not> is_float p \<and>
      fst (number_parser_end fp (number_parser_set_neg p 1)) = 0 \<and>
      ival (snd (number_parser_end fp (number_parser_set_neg p 1))) = - 9223372036854775808"
    using p r by (simp add: digits_value_def)
qed

text \<open>
  C1 as stated, without the bound on the length, fails: 32767 zeros followed by the digit
  5 denote the number 5 in base 10, and the parser returns the integer 0, because the
  digit 5 arrives when \<open>int_len\<close> is at \<open>MAX_LEN\<close>.
\<close>

theorem C1_long_sequence_counterexample:
  "\<forall>fp. list_all (\<lambda>d. 0 \<le> d \<and> d < uint (10 :: 8 word)) (replicate 32767 0 @ [5]) \<and>
     digits_value (uint (10 :: 8 word)) (replicate 32767 0 @ [5]) = 5 \<and>
     map_option (\<lambda>p. ival (snd (number_parser_end fp (number_parser_set_neg p 0))))
       (add_digits fp (number_parser_init 10) (replicate 32767 0 @ [5])) = Some 0"
proof
  fix fp
  let ?p = "(number_parser_init 10)\<lparr>int_len := 32767\<rparr>"
  have d: "list_all (\<lambda>d. 0 \<le> d \<and> d < uint (10 :: 8 word)) (replicate 32767 0 @ [5])"
    by (simp add: list_all_iff)
  have v: "digits_value (uint (10 :: 8 word)) (replicate 32767 0 @ [5]) = 5"
    using digits_value_zeros [of 10 32767] by (simp add: digits_value_def)
  have "add_digits fp (number_parser_init 10) (replicate 32767 0) = Some ?p"
    by (rule zeros_to_cap) simp
  moreover have "number_parser_add_digit fp ?p 5 = Some ?p"
    by (rule add_digit_at_cap) (simp add: MAX_LEN_def)
  ultimately have run: "add_digits fp (number_parser_init 10) (replicate 32767 0 @ [5]) = Some ?p"
    by (simp add: add_digits_append)
  have "ival (snd (number_parser_end fp (number_parser_set_neg ?p 0))) = 0"
    by (simp add: number_parser_end_def number_parser_set_neg_def number_parser_init_def
        uval_def ival_def MAX_POS_INT_def MAX_INT_def)
  then show "list_all (\<lambda>d. 0 \<le> d \<and> d < uint (10 :: 8 word)) (replicate 32767 0 @ [5]) \<and>
     digits_value (uint (10 :: 8 word)) (replicate 32767 0 @ [5]) = 5 \<and>
     map_option (\<lambda>p. ival (snd (number_parser_end fp (number_parser_set_neg p 0))))
       (add_digits fp (number_parser_init 10) (replicate 32767 0 @ [5])) = Some 0"
    using d v run by simp
qed

text \<open>
  C2. For every base other than 0 and every sequence of calls that contains a
  \<open>number_parser_set_rad_point\<close> or a \<open>number_parser_add_exp_digit\<close>, whatever the digits
  and the other calls are, the sequence returns and \<open>number_parser_end\<close> then returns 1
  (floating-point).
\<close>

theorem C2_radix_or_exponent_float:
  assumes "b \<noteq> 0"
    and "Set_rad_point \<in> set cs \<or> (\<exists>d. Add_exp_digit d \<in> set cs)"
  shows "\<exists>p. do_calls fp (number_parser_init b) cs = Some p \<and>
      fst (number_parser_end fp p) = 1 \<and> is_float (snd (number_parser_end fp p))"
proof -
  obtain p where p: "do_calls fp (number_parser_init b) cs = Some p"
    using do_calls_total [of "number_parser_init b" fp cs] assms(1)
    by (auto simp: number_parser_init_def)
  have "has_exp p \<or> 0 \<le> sint (rad_off p)"
    using p assms(2) by (intro do_calls_forced [OF p]) (simp_all add: number_parser_init_def)
  then show ?thesis
    using p end_forced [of p fp] by auto
qed

text \<open>
  The theorem at \<open>12.\<close> and at the digit 7 with the exponent digit 0, in base 10.
\<close>

theorem C2_radix_or_exponent_float_witness:
  "\<forall>fp. (\<exists>p. do_calls fp (number_parser_init 10) [Add_digit 1, Add_digit 2, Set_rad_point] = Some p \<and>
      fst (number_parser_end fp p) = 1 \<and> is_float (snd (number_parser_end fp p))) \<and>
    (\<exists>p. do_calls fp (number_parser_init 10) [Add_exp_digit 0, Add_digit 7] = Some p \<and>
      fst (number_parser_end fp p) = 1 \<and> is_float (snd (number_parser_end fp p)))"
proof (intro allI conjI)
  fix fp
  show "\<exists>p. do_calls fp (number_parser_init 10) [Add_digit 1, Add_digit 2, Set_rad_point] = Some p \<and>
      fst (number_parser_end fp p) = 1 \<and> is_float (snd (number_parser_end fp p))"
    by (rule C2_radix_or_exponent_float) simp_all
  show "\<exists>p. do_calls fp (number_parser_init 10) [Add_exp_digit 0, Add_digit 7] = Some p \<and>
      fst (number_parser_end fp p) = 1 \<and> is_float (snd (number_parser_end fp p))"
    by (rule C2_radix_or_exponent_float) simp_all
qed

text \<open>
  C3. When the struct is an integer with magnitude exactly \<open>2^63\<close>, the sign is
  negative, no exponent digit was added and no radix point was set,
  \<open>number_parser_end\<close> returns 0 (integer) and \<open>ival\<close> is \<open>-2^63\<close>.
  The negation of \<open>ival\<close> is the two's complement one of the model.
\<close>

theorem C3_min_int:
  assumes "\<not> is_float p" "uint (uval p) = 2 ^ 63" "sign p" "\<not> has_exp p" "sint (rad_off p) < 0"
  shows "fst (number_parser_end fp p) = 0 \<and> ival (snd (number_parser_end fp p)) = - (2 ^ 63)"
proof -
  have b: "bits p = 2 ^ 63"
    using assms(2) by (simp add: uval_def word_uint_eq_iff)
  have e: "number_parser_end fp p = (0, if sign p then p\<lparr>bits := - bits p\<rparr> else p)"
    using assms by (intro end_integer) simp_all
  show ?thesis using e assms(3) b by (simp add: ival_def)
qed

text \<open>The theorem at the hexadecimal digits of \<open>2^63\<close>, made negative.\<close>

theorem C3_min_int_witness:
  "\<forall>fp. add_digits fp (number_parser_init 16) [8,0,0,0,0,0,0,0,0,0,0,0,0,0,0,0] =
          Some ((number_parser_init 16)\<lparr>bits := 2 ^ 63, int_len := 16\<rparr>) \<and>
        number_parser_end fp
          (number_parser_set_neg ((number_parser_init 16)\<lparr>bits := 2 ^ 63, int_len := 16\<rparr>) 1)
        = (0, (number_parser_init 16)\<lparr>bits := 2 ^ 63, int_len := 16, sign := True\<rparr>) \<and>
        ival ((number_parser_init 16)\<lparr>bits := 2 ^ 63, int_len := 16, sign := True\<rparr>)
        = - 9223372036854775808"
proof
  fix fp
  let ?p = "(number_parser_init 16)\<lparr>bits := 2 ^ 63, int_len := 16\<rparr>"
  let ?s = "number_parser_set_neg ?p 1"
  have run: "add_digits fp (number_parser_init 16) [8,0,0,0,0,0,0,0,0,0,0,0,0,0,0,0] = Some ?p"
    using add_digits_init_exact [of 16 "[8,0,0,0,0,0,0,0,0,0,0,0,0,0,0,0]" fp]
    by (simp add: digits_value_def MAX_LEN_def)
  have "fst (number_parser_end fp ?s) = 0 \<and> ival (snd (number_parser_end fp ?s)) = - (2 ^ 63)"
    by (rule C3_min_int)
      (simp_all add: number_parser_set_neg_def number_parser_init_def uval_def)
  moreover have "snd (number_parser_end fp ?s) = (number_parser_init 16)\<lparr>bits := 2 ^ 63, int_len := 16, sign := True\<rparr>"
    by (simp add: number_parser_end_def number_parser_set_neg_def number_parser_init_def
        uval_def MAX_POS_INT_def MAX_INT_def)
  ultimately show "add_digits fp (number_parser_init 16) [8,0,0,0,0,0,0,0,0,0,0,0,0,0,0,0] =
          Some ((number_parser_init 16)\<lparr>bits := 2 ^ 63, int_len := 16\<rparr>) \<and>
        number_parser_end fp
          (number_parser_set_neg ((number_parser_init 16)\<lparr>bits := 2 ^ 63, int_len := 16\<rparr>) 1)
        = (0, (number_parser_init 16)\<lparr>bits := 2 ^ 63, int_len := 16, sign := True\<rparr>) \<and>
        ival ((number_parser_init 16)\<lparr>bits := 2 ^ 63, int_len := 16, sign := True\<rparr>)
        = - 9223372036854775808"
    using run by (simp add: prod_eq_iff)
qed

text \<open>
  C4. When the struct is an integer with magnitude exactly \<open>2^63\<close> and the sign is
  not negative, \<open>number_parser_end\<close> returns 1 (floating-point), whether or not a
  radix point or an exponent is set.
\<close>

theorem C4_max_int_plus_one:
  assumes "\<not> is_float p" "uint (uval p) = 2 ^ 63" "\<not> sign p"
  shows "fst (number_parser_end fp p) = 1 \<and> is_float (snd (number_parser_end fp p))"
proof -
  have "uval p > MAX_POS_INT"
    using assms(2) by (simp add: word_less_def uint_MAX_POS_INT)
  then show ?thesis using assms(3) end_forced [of p fp] by simp
qed

text \<open>The theorem at the hexadecimal digits of \<open>2^63\<close>.\<close>

theorem C4_max_int_plus_one_witness:
  "\<forall>fp. add_digits fp (number_parser_init 16) [8,0,0,0,0,0,0,0,0,0,0,0,0,0,0,0] =
          Some ((number_parser_init 16)\<lparr>bits := 2 ^ 63, int_len := 16\<rparr>) \<and>
        fst (number_parser_end fp ((number_parser_init 16)\<lparr>bits := 2 ^ 63, int_len := 16\<rparr>)) = 1 \<and>
        is_float (snd (number_parser_end fp ((number_parser_init 16)\<lparr>bits := 2 ^ 63, int_len := 16\<rparr>)))"
proof
  fix fp
  let ?p = "(number_parser_init 16)\<lparr>bits := 2 ^ 63, int_len := 16\<rparr>"
  have run: "add_digits fp (number_parser_init 16) [8,0,0,0,0,0,0,0,0,0,0,0,0,0,0,0] = Some ?p"
    using add_digits_init_exact [of 16 "[8,0,0,0,0,0,0,0,0,0,0,0,0,0,0,0]" fp]
    by (simp add: digits_value_def MAX_LEN_def)
  have "fst (number_parser_end fp ?p) = 1 \<and> is_float (snd (number_parser_end fp ?p))"
    by (rule C4_max_int_plus_one) (simp_all add: number_parser_init_def uval_def)
  then show "add_digits fp (number_parser_init 16) [8,0,0,0,0,0,0,0,0,0,0,0,0,0,0,0] =
          Some ((number_parser_init 16)\<lparr>bits := 2 ^ 63, int_len := 16\<rparr>) \<and>
        fst (number_parser_end fp ((number_parser_init 16)\<lparr>bits := 2 ^ 63, int_len := 16\<rparr>)) = 1 \<and>
        is_float (snd (number_parser_end fp ((number_parser_init 16)\<lparr>bits := 2 ^ 63, int_len := 16\<rparr>)))"
    using run by simp
qed

text \<open>
  C5. In every struct reached from \<open>number_parser_init\<close> by calls with valid digits, the
  magnitude \<open>uval\<close> is at most \<open>2^63\<close> while \<open>is_float\<close> is clear, and a further
  \<open>number_parser_add_digit\<close> with a valid digit keeps it so. Below the cap on
  \<open>int_len\<close>, that call sets \<open>is_float\<close> exactly when the new magnitude
  \<open>uval * base + digit\<close> would be above \<open>2^63\<close>, and otherwise stores exactly that
  magnitude.
\<close>

theorem C5_integer_magnitude_bound:
  assumes "do_calls fp (number_parser_init b) cs = Some p" "\<forall>c\<in>set cs. valid_call b c"
    and "0 \<le> d" "d < uint b" "number_parser_add_digit fp p d = Some q"
  shows "(\<not> is_float p \<longrightarrow> uint (uval p) \<le> 2 ^ 63) \<and>
         (\<not> is_float q \<longrightarrow> uint (uval q) \<le> 2 ^ 63) \<and>
         (\<not> is_float p \<and> sint (int_len p) < MAX_LEN \<longrightarrow>
            (is_float q \<longleftrightarrow> 2 ^ 63 < uint (uval p) * uint b + d) \<and>
            (\<not> is_float q \<longrightarrow> uint (uval q) = uint (uval p) * uint b + d))"
proof -
  have p: "\<not> is_float p \<longrightarrow> uint (uval p) \<le> 2 ^ 63"
    using assms(1,2)
    by (intro do_calls_bound [OF assms(1)]) (simp_all add: number_parser_init_def uval_def)
  have bp: "base p = b" using do_calls_base [OF assms(1)] by (simp add: number_parser_init_def)
  then have "valid_call (base p) (Add_digit d)" using assms(3,4) by simp
  then have qb: "\<not> is_float q \<longrightarrow> uint (uval q) \<le> 2 ^ 63"
    using assms(5) p by (intro do_call_bound [of fp p "Add_digit d" q]) simp_all
  have d63: "d \<le> 2 ^ 63" using assms(4) uint_bounded [of b] by simp
  have b0: "b \<noteq> 0" using assms(3,4) by auto
  have step: "(is_float q \<longleftrightarrow> 2 ^ 63 < uint (uval p) * uint b + d) \<and>
            (\<not> is_float q \<longrightarrow> uint (uval q) = uint (uval p) * uint b + d)"
    if nf: "\<not> is_float p" and len: "sint (int_len p) < MAX_LEN"
  proof (cases "2 ^ 63 < uint (uval p) * uint b + d")
    case True
    then have "is_float q"
      using assms(5) nf len assms(3) d63 bp by (intro add_digit_promotes [of fp p d q]) simp_all
    then show ?thesis using True by simp
  next
    case False
    then have le: "uint (bits p) * uint (base p) + d \<le> 2 ^ 63" by (simp add: uval_def bp)
    have v0: "0 \<le> uint (bits p) * uint (base p) + d" using assms(3) by simp
    have "number_parser_add_digit fp p d =
       Some (p\<lparr>bits := word_of_int (uint (bits p) * uint (base p) + d), int_len := int_len p + 1\<rparr>)"
      using nf len b0 assms(3) le bp by (intro add_digit_exact) simp_all
    with assms(5) have q: "q = p\<lparr>bits := word_of_int (uint (bits p) * uint (base p) + d), int_len := int_len p + 1\<rparr>"
      by simp
    have "uint (uval q) = uint (bits p) * uint (base p) + d"
      unfolding q uval_def using uint_digit [OF v0 le] by simp
    moreover have "\<not> is_float q" unfolding q using nf by simp
    ultimately show ?thesis using False by (simp add: uval_def bp)
  qed
  from p qb step show ?thesis by blast
qed

text \<open>
  The theorem at the bound, in base 16: after the digits \<open>800000000000000\<close> the
  magnitude is \<open>2^59\<close>; the digit 0 gives exactly \<open>2^63\<close> and the struct stays an
  integer, the digit 1 would give \<open>2^63 + 1\<close> and the struct becomes floating-point.
\<close>

theorem C5_integer_magnitude_bound_witness:
  "\<forall>fp :: double_ops. do_calls fp (number_parser_init 16) (map Add_digit [8,0,0,0,0,0,0,0,0,0,0,0,0,0,0]) =
          Some ((number_parser_init 16)\<lparr>bits := 2 ^ 59, int_len := 15\<rparr>) \<and>
        number_parser_add_digit fp ((number_parser_init 16)\<lparr>bits := 2 ^ 59, int_len := 15\<rparr>) 0 =
          Some ((number_parser_init 16)\<lparr>bits := 2 ^ 63, int_len := 16\<rparr>) \<and>
        \<not> is_float ((number_parser_init 16)\<lparr>bits := 2 ^ 63, int_len := 16\<rparr>) \<and>
        uint (uval ((number_parser_init 16)\<lparr>bits := 2 ^ 63, int_len := 16\<rparr>)) = 2 ^ 63 \<and>
        number_parser_add_digit fp ((number_parser_init 16)\<lparr>bits := 2 ^ 59, int_len := 15\<rparr>) 1 =
          Some ((number_parser_init 16)\<lparr>is_float := True,
             bits := d_add fp (d_of_int fp (2 ^ 63)) (d_of_int fp 1), int_len := 16\<rparr>) \<and>
        is_float ((number_parser_init 16)\<lparr>is_float := True,
             bits := d_add fp (d_of_int fp (2 ^ 63)) (d_of_int fp 1), int_len := 16\<rparr>)"
proof
  fix fp :: double_ops
  let ?ds = "[8,0,0,0,0,0,0,0,0,0,0,0,0,0,0] :: int list"
  let ?p = "(number_parser_init 16)\<lparr>bits := 2 ^ 59, int_len := 15\<rparr>"
  let ?q0 = "(number_parser_init 16)\<lparr>bits := 2 ^ 63, int_len := 16\<rparr>"
  let ?q1 = "(number_parser_init 16)\<lparr>is_float := True,
             bits := d_add fp (d_of_int fp (2 ^ 63)) (d_of_int fp 1), int_len := 16\<rparr>"
  have "add_digits fp (number_parser_init 16) ?ds = Some ?p"
    using add_digits_init_exact [of 16 ?ds fp] by (simp add: digits_value_def MAX_LEN_def)
  then have run: "do_calls fp (number_parser_init 16) (map Add_digit ?ds) = Some ?p"
    by (simp only: do_calls_add_digits)
  have v: "\<forall>c\<in>set (map Add_digit ?ds). valid_call 16 c" by simp
  have s0: "number_parser_add_digit fp ?p 0 = Some ?q0"
    by (simp add: run_defs)
  have s1: "number_parser_add_digit fp ?p 1 = Some ?q1"
    by (simp add: run_defs)
  have pre: "\<not> is_float ?p \<and> sint (int_len ?p) < MAX_LEN"
    by (simp add: number_parser_init_def MAX_LEN_def)
  have up: "uint (uval ?p) * uint (16 :: 8 word) = 2 ^ 63"
    by (simp add: uval_def)
  have t0: "(is_float ?q0 \<longleftrightarrow> 2 ^ 63 < uint (uval ?p) * uint (16 :: 8 word) + 0) \<and>
            (\<not> is_float ?q0 \<longrightarrow> uint (uval ?q0) = uint (uval ?p) * uint (16 :: 8 word) + 0)"
    using C5_integer_magnitude_bound [OF run v _ _ s0] pre by simp
  have t1: "(is_float ?q1 \<longleftrightarrow> 2 ^ 63 < uint (uval ?p) * uint (16 :: 8 word) + 1)"
    using C5_integer_magnitude_bound [OF run v _ _ s1] pre by simp
  from t0 have "\<not> is_float ?q0" "uint (uval ?q0) = 2 ^ 63" unfolding up by simp_all
  moreover from t1 have "is_float ?q1" unfolding up by simp
  ultimately show "do_calls fp (number_parser_init 16) (map Add_digit ?ds) = Some ?p \<and>
        number_parser_add_digit fp ?p 0 = Some ?q0 \<and> \<not> is_float ?q0 \<and>
        uint (uval ?q0) = 2 ^ 63 \<and>
        number_parser_add_digit fp ?p 1 = Some ?q1 \<and> is_float ?q1"
    using run s0 s1 by blast
qed

text \<open>
  C6 (as amended). \<open>rad_off\<close> is changed by no call of \<open>number_parser_add_digit\<close>,
  \<open>number_parser_add_exp_digit\<close>, \<open>number_parser_set_neg\<close>, \<open>number_parser_set_exp_neg\<close> or
  \<open>number_parser_end\<close>; \<open>number_parser_set_rad_point\<close> sets it to the current
  \<open>int_len\<close>, also when it was set before.
\<close>

theorem C6_rad_off_frame:
  "(c \<noteq> Set_rad_point \<longrightarrow> do_call fp p c = Some q \<longrightarrow> rad_off q = rad_off p) \<and>
   rad_off (snd (number_parser_end fp p)) = rad_off p \<and>
   rad_off (number_parser_set_rad_point p) = int_len p"
proof (intro conjI impI)
  assume "c \<noteq> Set_rad_point" "do_call fp p c = Some q"
  then show "rad_off q = rad_off p"
    by (cases c) (auto simp: setter_defs add_digit_frame split: if_splits)
next
  show "rad_off (snd (number_parser_end fp p)) = rad_off p"
    by (simp add: number_parser_end_def Let_def convert_to_float_def end_float_frame)
next
  show "rad_off (number_parser_set_rad_point p) = int_len p"
    by (simp add: number_parser_set_rad_point_def)
qed

text \<open>
  The theorem at a digit added after the radix point was set at offset 0.
\<close>

theorem C6_rad_off_frame_witness:
  "\<forall>fp. do_call fp (number_parser_set_rad_point (number_parser_init 10)) (Add_digit 1) =
          Some ((number_parser_init 10)\<lparr>rad_off := 0, bits := 1, int_len := 1\<rparr>) \<and>
        rad_off ((number_parser_init 10)\<lparr>rad_off := 0, bits := 1, int_len := 1\<rparr>) =
          rad_off (number_parser_set_rad_point (number_parser_init 10))"
proof
  fix fp
  let ?p = "number_parser_set_rad_point (number_parser_init 10)"
  let ?q = "(number_parser_init 10)\<lparr>rad_off := 0, bits := 1, int_len := 1\<rparr>"
  have c: "do_call fp ?p (Add_digit 1) = Some ?q"
    by (simp add: run_defs)
  have "Add_digit 1 \<noteq> Set_rad_point" by simp
  with c have "rad_off ?q = rad_off ?p"
    using C6_rad_off_frame [of "Add_digit 1" fp ?p ?q] by blast
  with c show "do_call fp ?p (Add_digit 1) = Some ?q \<and> rad_off ?q = rad_off ?p" by blast
qed

text \<open>
  C6 as stated fails for a second \<open>number_parser_set_rad_point\<close>: set at offset 0, then
  one digit, then set again gives offset 1.
\<close>

theorem C6_second_set_rad_point_counterexample:
  "\<forall>fp. map_option (\<lambda>p. sint (rad_off p))
          (do_calls fp (number_parser_init 10) [Set_rad_point]) = Some 0 \<and>
        map_option (\<lambda>p. sint (rad_off p))
          (do_calls fp (number_parser_init 10) [Set_rad_point, Add_digit 1, Set_rad_point]) = Some 1"
  by (simp add: run_defs)




text \<open>
  C8. When \<open>int_len\<close> is 32767, \<open>number_parser_add_digit\<close> returns the struct as it
  was, for every digit; so does every sequence of such calls, and \<open>number_parser_end\<close>
  after them gives what it gives without them.
\<close>

theorem C8_digits_beyond_cap:
  assumes "sint (int_len p) = 32767"
  shows "number_parser_add_digit fp p d = Some p \<and> add_digits fp p ds = Some p \<and>
     map_option (number_parser_end fp) (add_digits fp p ds) = Some (number_parser_end fp p)"
  using assms by (simp add: add_digit_at_cap add_digits_at_cap MAX_LEN_def)

text \<open>
  The theorem at the struct that 32767 zeros leave in base 10.
\<close>

theorem C8_digits_beyond_cap_witness:
  "\<forall>fp. add_digits fp (number_parser_init 10) (replicate 32767 0) =
          Some ((number_parser_init 10)\<lparr>int_len := 32767\<rparr>) \<and>
        number_parser_add_digit fp ((number_parser_init 10)\<lparr>int_len := 32767\<rparr>) 7 =
          Some ((number_parser_init 10)\<lparr>int_len := 32767\<rparr>) \<and>
        map_option (number_parser_end fp)
          (add_digits fp ((number_parser_init 10)\<lparr>int_len := 32767\<rparr>) [1, 2, 3]) =
          Some (number_parser_end fp ((number_parser_init 10)\<lparr>int_len := 32767\<rparr>))"
proof
  fix fp
  let ?p = "(number_parser_init 10)\<lparr>int_len := 32767\<rparr>"
  have r: "add_digits fp (number_parser_init 10) (replicate 32767 0) = Some ?p"
    by (rule zeros_to_cap) simp
  have "sint (int_len ?p) = 32767" by simp
  then have "number_parser_add_digit fp ?p 7 = Some ?p \<and> add_digits fp ?p [1, 2, 3] = Some ?p \<and>
     map_option (number_parser_end fp) (add_digits fp ?p [1, 2, 3]) = Some (number_parser_end fp ?p)"
    by (rule C8_digits_beyond_cap)
  with r show "add_digits fp (number_parser_init 10) (replicate 32767 0) = Some ?p \<and>
        number_parser_add_digit fp ?p 7 = Some ?p \<and>
        map_option (number_parser_end fp) (add_digits fp ?p [1, 2, 3]) = Some (number_parser_end fp ?p)"
    by blast
qed

text \<open>
  C9. The exponent of the claim is \<open>exp_val * base + digit\<close>; the member that stores it
  is an \<open>int16_t\<close>. In base 255 the exponent digits 200 and 0 pass the guard
  (\<open>200 < MAX_EXP\<close>) and the new exponent \<open>200 * 255 + 0 = 51000\<close> does not fit: the
  member holds \<open>-14536\<close>.
\<close>

theorem C9_exponent_wraps:
  "sint (exp_val (number_parser_add_exp_digit (number_parser_init 255) 200)) = 200 \<and>
   sint (exp_val (number_parser_add_exp_digit
           (number_parser_add_exp_digit (number_parser_init 255) 200) 0)) = - 14536"
  by (simp add: run_defs)

text \<open>
  C10. \<open>number_parser_end\<close> right after \<open>number_parser_init\<close>, with no call in
  between, returns 0 (the number is an integer) and the integer is 0, for every base.
\<close>

theorem C10_end_after_init:
  "number_parser_end fp (number_parser_init b) = (0, number_parser_init b) \<and>
   ival (number_parser_init b) = 0"
  by (simp add: number_parser_end_def number_parser_init_def uval_def ival_def MAX_POS_INT_def
      MAX_INT_def)

end
